theory Spec2Isabelle
  imports Main "HOL-Library.AList" "HOL-Library.Sublist"
begin

section \<open>Values, errors and collaborators\<close>

text \<open>
  The class \<open>Polly\<close> of \<open>packages/@pollyjs/core/src/polly.ts\<close> is embedded with explicit
  state passing. A method takes the instance and returns the instance as the method left
  it together with \<open>None\<close> (normal completion) or \<open>Some e\<close> (the exception thrown; for an
  \<open>async\<close> method the reason its promise rejects with). JavaScript keeps the mutations made
  before a \<open>throw\<close>, so the instance is returned in both cases.
\<close>

datatype error =
    ReferenceError string
  | AssertionError string
  | LookupError string
  | Rejection string

type_synonym 'a outcome = "error option \<times> 'a"

definition andThen :: "'a outcome \<Rightarrow> ('a \<Rightarrow> 'a outcome) \<Rightarrow> 'a outcome" where
  "andThen r f = (case r of (Some e, p) \<Rightarrow> (Some e, p) | (None, p) \<Rightarrow> f p)"

text \<open>
  Modelled from the spec: \<open>assert\<close> of \<open>@pollyjs/utils\<close> is not part of the embedded file.
  The spec describes its failures as validation and lookup errors carrying a message;
  \<open>assert msg cond\<close> throws the error with that message when \<open>cond\<close> is false.
\<close>

definition assert :: "string \<Rightarrow> bool \<Rightarrow> error option" where
  "assert msg cond = (if cond then None else Some (AssertionError msg))"

text \<open>
  Modelled from the spec: \<open>MODES\<close> of \<open>@pollyjs/utils\<close>, the enumeration
  \<open>{RECORD, REPLAY, PASSTHROUGH, STOPPED}\<close>, each name mapped to itself.
\<close>

definition MODES_RECORD :: string where "MODES_RECORD = ''RECORD''"
definition MODES_REPLAY :: string where "MODES_REPLAY = ''REPLAY''"
definition MODES_PASSTHROUGH :: string where "MODES_PASSTHROUGH = ''PASSTHROUGH''"
definition MODES_STOPPED :: string where "MODES_STOPPED = ''STOPPED''"

definition MODES_values :: "string list" where
  "MODES_values = [MODES_RECORD, MODES_REPLAY, MODES_PASSTHROUGH, MODES_STOPPED]"

fun join :: "string \<Rightarrow> string list \<Rightarrow> string" where
  "join sep [] = []"
| "join sep [x] = x"
| "join sep (x # y # ys) = x @ sep @ join sep (y # ys)"

text \<open>
  A factory is a plugin class: \<open>ftype\<close> is its capability (\<open>adapter\<close> or \<open>persister\<close>),
  \<open>fname\<close> its \<open>name\<close>, \<open>fident\<close> its object identity. The argument of \<open>connectTo\<close> and the
  entries of the configuration are either a name or a factory
  (\<open>typeof nameOrFactory === 'function'\<close>).
\<close>

record factory =
  ftype :: string
  fname :: string
  fident :: nat

datatype name_or_factory = ByName string | ByFactory factory

text \<open>An object made by \<open>new Factory(polly)\<close>: its identity and the class it was made from.\<close>

record plugin =
  inst_id :: nat
  inst_of :: factory

record PollyConfig =
  cfg_mode :: string
  cfg_adapters :: "name_or_factory list"
  cfg_persister :: "name_or_factory option"

text \<open>
  A tracked request. \<open>PollyRequest\<close> is outside the embedded file; of its fields the class
  reads only \<open>promise\<close>, here the identity of the request's completion promise.
\<close>

record PollyRequest =
  req_data :: string
  promise :: nat

text \<open>
  The calls the instance makes on its collaborators, in the order they are made: the
  connect and disconnect hooks of an adapter instance, the logger's hooks, the
  persister's \<open>persist\<close> and the broadcast of an event on the process-wide emitter.
\<close>

datatype effect =
    AdapterConnect nat
  | AdapterDisconnect nat
  | LoggerConnect
  | LoggerDisconnect
  | Persist nat
  | Emit string

text \<open>
  The instance. \<open>adapters\<close> is a JavaScript \<open>Map\<close>, which iterates in insertion order: an
  association list. \<open>container\<close> maps the key \<open>type:name\<close> to the registered factory.
  \<open>PAUSED_MODE\<close> is \<open>None\<close> while the property is absent. \<open>fresh\<close> is the identity the
  next created object gets; \<open>effects\<close> is the log of collaborator calls.
\<close>

record Polly =
  config :: PollyConfig
  PAUSED_MODE :: "string option"
  container :: "string \<rightharpoonup> factory"
  adapters :: "(string \<times> plugin) list"
  persister :: "plugin option"
  requests :: "PollyRequest list"
  fresh :: nat
  effects :: "effect list"

definition log :: "effect \<Rightarrow> Polly \<Rightarrow> Polly" where
  "log e p = p\<lparr>effects := effects p @ [e]\<rparr>"

section \<open>The mode and its setter\<close>

definition mode :: "Polly \<Rightarrow> string" where
  "mode p = cfg_mode (config p)"

text \<open>
  The setter's parameter is \<open>mode\<close>; its body reads the identifier \<open>uppercaseMode\<close>, which
  the file binds nowhere (no declaration in the setter, no module-level binding, no
  import). Evaluating an unbound identifier throws a \<open>ReferenceError\<close>; \<open>uppercaseMode\<close>
  below is the result of resolving the identifier in the setter's scope.
\<close>

definition uppercaseMode :: "error + string" where
  "uppercaseMode = Inl (ReferenceError ''uppercaseMode is not defined'')"

definition invalid_mode_message :: "string \<Rightarrow> string list \<Rightarrow> string" where
  "invalid_mode_message u possibleModes =
     ''Invalid mode provided: '' @ [CHR 0x22] @ u @ [CHR 0x22] @ ''. Possible modes: ''
       @ join '', '' possibleModes @ ''.''"

text \<open>
  \<open>set mode(mode)\<close>. The first argument of \<open>assert\<close>, the template literal, is evaluated
  before the call, so the unbound identifier is hit before any check is made.
\<close>

definition set_mode :: "string \<Rightarrow> Polly \<Rightarrow> Polly outcome" where
  "set_mode mode_arg p =
     (let possibleModes = MODES_values in
      case uppercaseMode of
        Inl e \<Rightarrow> (Some e, p)
      | Inr u \<Rightarrow>
          (case assert (invalid_mode_message u possibleModes) (u \<in> set possibleModes) of
             Some e \<Rightarrow> (Some e, p)
           | None \<Rightarrow> (None, p\<lparr>config := (config p)\<lparr>cfg_mode := u\<rparr>\<rparr>)))"

definition polly_record :: "Polly \<Rightarrow> Polly outcome" where
  "polly_record p = set_mode MODES_RECORD p"

definition polly_replay :: "Polly \<Rightarrow> Polly outcome" where
  "polly_replay p = set_mode MODES_REPLAY p"

text \<open>A string is truthy when it is not empty; an absent property is falsy.\<close>

definition truthy :: "string option \<Rightarrow> bool" where
  "truthy v = (case v of None \<Rightarrow> False | Some s \<Rightarrow> s \<noteq> [])"

definition pause :: "Polly \<Rightarrow> Polly outcome" where
  "pause p = set_mode MODES_PASSTHROUGH (p\<lparr>PAUSED_MODE := Some (mode p)\<rparr>)"

definition play :: "Polly \<Rightarrow> Polly outcome" where
  "play p =
     (case PAUSED_MODE p of
        None \<Rightarrow> (None, p)
      | Some m \<Rightarrow>
          if truthy (Some m)
          then andThen (set_mode m p) (\<lambda>p'. (None, p'\<lparr>PAUSED_MODE := None\<rparr>))
          else (None, p))"

section \<open>The plugin container\<close>

text \<open>
  Modelled from the spec: \<open>Container\<close> (\<open>-private/container\<close>) is not part of the embedded
  file. The spec gives it as a registry from \<open>capability:name\<close> to a factory; \<open>register\<close>
  adds the factory under its derived name, \<open>has\<close> and \<open>lookup\<close> query by the same key and
  \<open>lookup\<close> fails with a lookup error when the key is absent.
\<close>

definition container_key :: "factory \<Rightarrow> string" where
  "container_key f = ftype f @ '':'' @ fname f"

definition container_register :: "factory \<Rightarrow> (string \<rightharpoonup> factory) \<Rightarrow> (string \<rightharpoonup> factory)" where
  "container_register f c = c(container_key f \<mapsto> f)"

definition container_has :: "string \<Rightarrow> (string \<rightharpoonup> factory) \<Rightarrow> bool" where
  "container_has k c = (c k \<noteq> None)"

definition container_lookup :: "string \<Rightarrow> (string \<rightharpoonup> factory) \<Rightarrow> error + factory" where
  "container_lookup k c = (case c k of None \<Rightarrow> Inl (LookupError k) | Some f \<Rightarrow> Inr f)"

section \<open>Adapters\<close>

text \<open>
  The constructor of an adapter and its \<open>connect\<close> and \<open>disconnect\<close> hooks are collaborator
  code. A hook call is logged in \<open>effects\<close> and returns normally.
\<close>

definition name_of :: "name_or_factory \<Rightarrow> string" where
  "name_of nameOrFactory = (case nameOrFactory of ByName n \<Rightarrow> n | ByFactory f \<Rightarrow> fname f)"

definition disconnectFrom :: "name_or_factory \<Rightarrow> Polly \<Rightarrow> Polly" where
  "disconnectFrom nameOrFactory p =
     (let adapterName = name_of nameOrFactory in
      case map_of (adapters p) adapterName of
        Some a \<Rightarrow>
          (log (AdapterDisconnect (inst_id a)) p)
            \<lparr>adapters := AList.delete adapterName (adapters p)\<rparr>
      | None \<Rightarrow> p)"

definition adapter_missing_message :: "string \<Rightarrow> string" where
  "adapter_missing_message adapterName =
     ''Adapter matching the name `'' @ adapterName @ ''` was not registered.''"

definition connectTo :: "name_or_factory \<Rightarrow> Polly \<Rightarrow> Polly outcome" where
  "connectTo nameOrFactory p =
     (let p1 = (case nameOrFactory of
                  ByFactory f \<Rightarrow> p\<lparr>container := container_register f (container p)\<rparr>
                | ByName n \<Rightarrow> p);
          adapterName = name_of nameOrFactory
      in case assert (adapter_missing_message adapterName)
                (container_has (''adapter:'' @ adapterName) (container p1)) of
           Some e \<Rightarrow> (Some e, p1)
         | None \<Rightarrow>
             (let p2 = disconnectFrom (ByName adapterName) p1
              in case container_lookup (''adapter:'' @ adapterName) (container p2) of
                   Inl e \<Rightarrow> (Some e, p2)
                 | Inr F \<Rightarrow>
                     (let adapter = \<lparr>inst_id = fresh p2, inst_of = F\<rparr>;
                          p3 = log (AdapterConnect (inst_id adapter)) (p2\<lparr>fresh := Suc (fresh p2)\<rparr>)
                      in (None, p3\<lparr>adapters := AList.update adapterName adapter (adapters p3)\<rparr>))))"

text \<open>
  \<open>disconnect\<close> iterates over the keys of the \<open>Map\<close> while \<open>disconnectFrom\<close> deletes the
  entry just visited; the iterator goes on with the remaining entries, so every key
  present at the start is visited once, in insertion order.
\<close>

definition disconnect :: "Polly \<Rightarrow> Polly" where
  "disconnect p = fold (\<lambda>adapterName. disconnectFrom (ByName adapterName)) (map fst (adapters p)) p"

section \<open>Configuration\<close>

text \<open>
  \<open>mergeConfigs\<close> and \<open>DefaultConfig\<close> are outside the embedded file. \<open>configure\<close> takes the
  merge as a parameter: \<open>mergeConfigs prev cfg\<close> stands for
  \<open>mergeConfigs(DefaultConfig, this.config, config)\<close>, whatever the type of \<open>config\<close>.
\<close>

fun forEach :: "('a \<Rightarrow> Polly \<Rightarrow> Polly outcome) \<Rightarrow> 'a list \<Rightarrow> Polly \<Rightarrow> Polly outcome" where
  "forEach f [] p = (None, p)"
| "forEach f (x # xs) p = andThen (f x p) (forEach f xs)"

definition requests_handled_message :: string where
  "requests_handled_message = ''Cannot call `configure` once requests have been handled.''"

definition not_running_message :: string where
  "not_running_message =
     ''Cannot call `configure` on an instance of Polly that is not running.''"

definition persister_missing_message :: "string \<Rightarrow> string" where
  "persister_missing_message persisterName =
     ''Persister matching the name `'' @ persisterName @ ''` was not registered.''"

text \<open>\<open>if (persister)\<close>: a factory is truthy, a name is truthy unless it is empty.\<close>

definition configured :: "name_or_factory option \<Rightarrow> bool" where
  "configured entry =
     (case entry of
        None \<Rightarrow> False
      | Some (ByFactory f) \<Rightarrow> True
      | Some (ByName n) \<Rightarrow> n \<noteq> [])"

definition handle_persister :: "Polly \<Rightarrow> Polly outcome" where
  "handle_persister p =
     (case cfg_persister (config p) of
        None \<Rightarrow> (None, p)
      | Some entry \<Rightarrow>
          if configured (Some entry) then
            (let p1 = (case entry of
                         ByFactory f \<Rightarrow> p\<lparr>container := container_register f (container p)\<rparr>
                       | ByName n \<Rightarrow> p);
                 persisterName = name_of entry
             in case assert (persister_missing_message persisterName)
                       (container_has (''persister:'' @ persisterName) (container p1)) of
                  Some e \<Rightarrow> (Some e, p1)
                | None \<Rightarrow>
                    (case container_lookup (''persister:'' @ persisterName) (container p1) of
                       Inl e \<Rightarrow> (Some e, p1)
                     | Inr F \<Rightarrow>
                         (None, p1\<lparr>persister := Some \<lparr>inst_id = fresh p1, inst_of = F\<rparr>,
                                    fresh := Suc (fresh p1)\<rparr>)))
          else (None, p))"

definition configure :: "(PollyConfig \<Rightarrow> 'c \<Rightarrow> PollyConfig) \<Rightarrow> 'c \<Rightarrow> Polly \<Rightarrow> Polly outcome" where
  "configure mergeConfigs cfg p =
     (case assert requests_handled_message (length (requests p) = 0) of
        Some e \<Rightarrow> (Some e, p)
      | None \<Rightarrow>
          (case assert not_running_message (mode p \<noteq> MODES_STOPPED) of
             Some e \<Rightarrow> (Some e, p)
           | None \<Rightarrow>
               (let p1 = disconnect p;
                    p2 = p1\<lparr>config := mergeConfigs (config p1) cfg\<rparr>
                in andThen (forEach connectTo (cfg_adapters (config p2)) p2) handle_persister)))"

section \<open>Shutdown\<close>

text \<open>
  \<open>stop\<close> is \<open>async\<close>. \<open>persist i\<close> is what the promise returned by the \<open>persist\<close> operation
  of the persister instance \<open>i\<close> settles with: \<open>None\<close> when it resolves, \<open>Some e\<close> when it
  rejects; \<open>await\<close> rethrows the rejection. The broadcast of the \<open>stop\<close> event is logged.
\<close>

definition stop :: "(plugin \<Rightarrow> error option) \<Rightarrow> Polly \<Rightarrow> Polly outcome" where
  "stop persist p =
     (if mode p \<noteq> MODES_STOPPED then
        (let p1 = disconnect p;
             p2 = log LoggerDisconnect p1
         in andThen
              (case persister p2 of
                 None \<Rightarrow> (None, p2)
               | Some i \<Rightarrow> (persist i, log (Persist (inst_id i)) p2))
              (\<lambda>p3. andThen (set_mode MODES_STOPPED p3)
                 (\<lambda>p4. (None, log (Emit ''stop'') p4))))
      else (None, p))"

section \<open>Tracked requests and flush\<close>

definition registerRequest :: "string \<Rightarrow> Polly \<Rightarrow> PollyRequest \<times> Polly" where
  "registerRequest request p =
     (let pollyRequest = \<lparr>req_data = request, promise = fresh p\<rparr>
      in (pollyRequest, p\<lparr>requests := requests p @ [pollyRequest], fresh := Suc (fresh p)\<rparr>))"

text \<open>
  The state of a promise. \<open>then_NOOP\<close> is the state of \<open>Promise.resolve(x).then(NOOP, NOOP)\<close>
  given the state of \<open>x\<close>: both handlers return normally. \<open>Promise_all\<close> is the state of
  \<open>Promise.all\<close> of promises in the given states: rejected as soon as one is rejected,
  fulfilled once all are.
\<close>

datatype settlement = Pending | Fulfilled | Rejected

definition then_NOOP :: "settlement \<Rightarrow> settlement" where
  "then_NOOP x = (case x of Pending \<Rightarrow> Pending | Fulfilled \<Rightarrow> Fulfilled | Rejected \<Rightarrow> Fulfilled)"

definition Promise_all :: "settlement list \<Rightarrow> settlement" where
  "Promise_all xs =
     (if Rejected \<in> set xs then Rejected
      else if Pending \<in> set xs then Pending
      else Fulfilled)"

text \<open>
  \<open>flush\<close> maps over \<open>this._requests\<close> when it is called: \<open>flush p\<close> is the list of the
  completion promises it awaits. \<open>flush_state h awaited\<close> is the state of the promise
  \<open>flush\<close> returned, when the promises of the program are in the states \<open>h\<close>.
\<close>

definition flush :: "Polly \<Rightarrow> nat list" where
  "flush p = map promise (requests p)"

definition flush_state :: "(nat \<Rightarrow> settlement) \<Rightarrow> nat list \<Rightarrow> settlement" where
  "flush_state h awaited = Promise_all (map (\<lambda>r. then_NOOP (h r)) awaited)"

section \<open>The static registration interface\<close>

text \<open>
  A listener is a function object with an identity. \<open>InstallFactory i F\<close> is the closure
  \<open>container => container.register(F)\<close> created by the static \<open>register\<close>.
\<close>

datatype listener = InstallFactory nat factory | Listener nat

record statics =
  FACTORY_REGISTRATION :: "factory \<rightharpoonup> listener"
  EVENT_EMITTER :: "string \<Rightarrow> listener list"
  closures :: nat

text \<open>
  Modelled from the spec: \<open>EventEmitter\<close> (\<open>-private/event-emitter\<close>) is not part of the
  embedded file. By the spec a repeated subscription of the same callback is an
  additional subscription, not deduplicated: the subscriptions of an event are a list
  and \<open>on\<close> appends to it. \<open>off\<close> removes the listener's subscriptions.
\<close>

definition emitter_on :: "string \<Rightarrow> listener \<Rightarrow> (string \<Rightarrow> listener list) \<Rightarrow> (string \<Rightarrow> listener list)" where
  "emitter_on eventName l em = em(eventName := em eventName @ [l])"

definition emitter_off :: "string \<Rightarrow> listener \<Rightarrow> (string \<Rightarrow> listener list) \<Rightarrow> (string \<Rightarrow> listener list)" where
  "emitter_off eventName l em = em(eventName := removeAll l (em eventName))"

definition static_on :: "string \<Rightarrow> listener \<Rightarrow> statics \<Rightarrow> statics" where
  "static_on eventName l st = st\<lparr>EVENT_EMITTER := emitter_on eventName l (EVENT_EMITTER st)\<rparr>"

definition static_off :: "string \<Rightarrow> listener \<Rightarrow> statics \<Rightarrow> statics" where
  "static_off eventName l st = st\<lparr>EVENT_EMITTER := emitter_off eventName l (EVENT_EMITTER st)\<rparr>"

definition static_register :: "factory \<Rightarrow> statics \<Rightarrow> statics" where
  "static_register Factory st =
     (let st1 = (if FACTORY_REGISTRATION st Factory = None
                 then st\<lparr>FACTORY_REGISTRATION :=
                           (FACTORY_REGISTRATION st)(Factory \<mapsto> InstallFactory (closures st) Factory),
                         closures := Suc (closures st)\<rparr>
                 else st)
      in case FACTORY_REGISTRATION st1 Factory of
           Some callback \<Rightarrow> static_on ''register'' callback st1
         | None \<Rightarrow> st1)"

definition static_unregister :: "factory \<Rightarrow> statics \<Rightarrow> statics" where
  "static_unregister Factory st =
     (case FACTORY_REGISTRATION st Factory of
        Some callback \<Rightarrow> static_off ''register'' callback st
      | None \<Rightarrow> st)"

section \<open>Example instances\<close>

text \<open>
  A running instance in mode \<open>REPLAY\<close>: the adapter \<open>fetch\<close> is connected (instance 0), the
  persister \<open>fs\<close> is instantiated (instance 1), no request has been registered.
\<close>

definition fetch_adapter :: factory where
  "fetch_adapter = \<lparr>ftype = ''adapter'', fname = ''fetch'', fident = 1\<rparr>"

definition fs_persister :: factory where
  "fs_persister = \<lparr>ftype = ''persister'', fname = ''fs'', fident = 2\<rparr>"

definition running_polly :: Polly where
  "running_polly =
     \<lparr>config = \<lparr>cfg_mode = ''REPLAY'', cfg_adapters = [ByName ''fetch''],
                 cfg_persister = Some (ByName ''fs'')\<rparr>,
      PAUSED_MODE = None,
      container = [''adapter:fetch'' \<mapsto> fetch_adapter, ''persister:fs'' \<mapsto> fs_persister],
      adapters = [(''fetch'', \<lparr>inst_id = 0, inst_of = fetch_adapter\<rparr>)],
      persister = Some \<lparr>inst_id = 1, inst_of = fs_persister\<rparr>,
      requests = [],
      fresh = 2,
      effects = [LoggerConnect, AdapterConnect 0]\<rparr>"

definition persist_fails :: "plugin \<Rightarrow> error option" where
  "persist_fails i = Some (Rejection ''disk full'')"

definition persist_resolves :: "plugin \<Rightarrow> error option" where
  "persist_resolves i = None"

text \<open>The same instance once its mode is \<open>STOPPED\<close>.\<close>

definition stopped_polly :: Polly where
  "stopped_polly = running_polly\<lparr>config := (config running_polly)\<lparr>cfg_mode := MODES_STOPPED\<rparr>\<rparr>"

text \<open>
  Modelled from the spec: a merge for the examples, since \<open>mergeConfigs\<close> is not part of the
  embedded file. By the spec the newly supplied layer wins over the previous one on every
  field it defines, and a list is replaced wholesale. A field of \<open>PartialConfig\<close> is
  \<open>None\<close> when the supplied object does not define it; \<open>new_persister = Some None\<close> is an
  explicit \<open>persister: null\<close>.
\<close>

record PartialConfig =
  new_mode :: "string option"
  new_adapters :: "name_or_factory list option"
  new_persister :: "name_or_factory option option"

definition merge_layers :: "PollyConfig \<Rightarrow> PartialConfig \<Rightarrow> PollyConfig" where
  "merge_layers prev new =
     \<lparr>cfg_mode = (case new_mode new of None \<Rightarrow> cfg_mode prev | Some m \<Rightarrow> m),
      cfg_adapters = (case new_adapters new of None \<Rightarrow> cfg_adapters prev | Some xs \<Rightarrow> xs),
      cfg_persister = (case new_persister new of None \<Rightarrow> cfg_persister prev | Some x \<Rightarrow> x)\<rparr>"

definition no_changes :: PartialConfig where
  "no_changes = \<lparr>new_mode = None, new_adapters = None, new_persister = None\<rparr>"

definition without_persister :: PartialConfig where
  "without_persister = \<lparr>new_mode = None, new_adapters = None, new_persister = Some None\<rparr>"

text \<open>The running instance after one request has been registered, and after two.\<close>

definition request_seen :: Polly where
  "request_seen = snd (registerRequest ''GET /users'' running_polly)"

definition two_requests :: Polly where
  "two_requests = snd (registerRequest ''GET /b'' (snd (registerRequest ''GET /a'' running_polly)))"

text \<open>
  Promise states in which the first tracked request has failed, the second has completed
  and every other promise is still pending.
\<close>

definition one_failed :: "nat \<Rightarrow> settlement" where
  "one_failed r = (if r = 2 then Rejected else if r = 3 then Fulfilled else Pending)"

text \<open>The running instance after \<open>configure({})\<close>.\<close>

definition reconfigured :: Polly where
  "reconfigured = snd (configure merge_layers no_changes running_polly)"

text \<open>
  The adapter instances whose \<open>connect\<close> hook has been called and whose \<open>disconnect\<close> hook
  has not, after the calls \<open>es\<close>, when the instances \<open>A\<close> were connected before them.
\<close>

fun connected :: "nat set \<Rightarrow> effect list \<Rightarrow> nat set" where
  "connected A [] = A"
| "connected A (AdapterConnect i # es) = connected (insert i A) es"
| "connected A (AdapterDisconnect i # es) = connected (A - {i}) es"
| "connected A (e # es) = connected A es"

text \<open>
  The static state before any registration, the callback that \<open>register(Factory)\<close>
  subscribes (the memoized one, or the closure it creates when there is none), and the
  static state after \<open>register\<close> has been called twice for the adapter \<open>fetch\<close>.
\<close>

definition no_registrations :: statics where
  "no_registrations = \<lparr>FACTORY_REGISTRATION = Map.empty, EVENT_EMITTER = (\<lambda>eventName. []), closures = 0\<rparr>"

definition memoized :: "factory \<Rightarrow> statics \<Rightarrow> listener" where
  "memoized Factory st =
     (case FACTORY_REGISTRATION st Factory of
        Some callback \<Rightarrow> callback
      | None \<Rightarrow> InstallFactory (closures st) Factory)"

definition fetch_registered_twice :: statics where
  "fetch_registered_twice = static_register fetch_adapter (static_register fetch_adapter no_registrations)"

section \<open>Frame properties\<close>

lemmas example_defs = running_polly_def fetch_adapter_def fs_persister_def persist_fails_def
  persist_resolves_def

lemmas MODES_defs =
  MODES_RECORD_def MODES_REPLAY_def MODES_PASSTHROUGH_def MODES_STOPPED_def MODES_values_def

lemmas run_defs = stop_def disconnect_def disconnectFrom_def log_def andThen_def mode_def
  name_of_def set_mode_def uppercaseMode_def Let_def

lemma set_mode_raises:
  "set_mode m p = (Some (ReferenceError ''uppercaseMode is not defined''), p)"
  by (simp add: set_mode_def uppercaseMode_def)

lemma disconnectFrom_frame:
  "config (disconnectFrom x p) = config p"
  "persister (disconnectFrom x p) = persister p"
  "requests (disconnectFrom x p) = requests p"
  "container (disconnectFrom x p) = container p"
  "fresh (disconnectFrom x p) = fresh p"
  "PAUSED_MODE (disconnectFrom x p) = PAUSED_MODE p"
  by (simp_all add: disconnectFrom_def log_def Let_def split: option.split)

lemma fold_disconnectFrom_frame:
  "config (fold (\<lambda>k. disconnectFrom (ByName k)) ks p) = config p"
  "persister (fold (\<lambda>k. disconnectFrom (ByName k)) ks p) = persister p"
  "requests (fold (\<lambda>k. disconnectFrom (ByName k)) ks p) = requests p"
  "container (fold (\<lambda>k. disconnectFrom (ByName k)) ks p) = container p"
  "fresh (fold (\<lambda>k. disconnectFrom (ByName k)) ks p) = fresh p"
  "PAUSED_MODE (fold (\<lambda>k. disconnectFrom (ByName k)) ks p) = PAUSED_MODE p"
  by (induction ks arbitrary: p; simp add: disconnectFrom_frame)+

lemma disconnect_frame:
  "config (disconnect p) = config p"
  "persister (disconnect p) = persister p"
  "requests (disconnect p) = requests p"
  "container (disconnect p) = container p"
  "fresh (disconnect p) = fresh p"
  "PAUSED_MODE (disconnect p) = PAUSED_MODE p"
  by (simp_all add: disconnect_def fold_disconnectFrom_frame)

lemma mode_disconnect: "mode (disconnect p) = mode p"
  by (simp add: mode_def disconnect_frame)

lemma mode_log: "mode (log e p) = mode p"
  by (simp add: mode_def log_def)

lemma connectTo_frame:
  "config (snd (connectTo x p)) = config p"
  "persister (snd (connectTo x p)) = persister p"
  "requests (snd (connectTo x p)) = requests p"
  "PAUSED_MODE (snd (connectTo x p)) = PAUSED_MODE p"
  by (simp_all add: connectTo_def assert_def container_lookup_def log_def Let_def disconnectFrom_frame
      split: name_or_factory.split option.split sum.split)

lemma forEach_connectTo_frame:
  "config (snd (forEach connectTo xs p)) = config p"
  "persister (snd (forEach connectTo xs p)) = persister p"
  "requests (snd (forEach connectTo xs p)) = requests p"
  "PAUSED_MODE (snd (forEach connectTo xs p)) = PAUSED_MODE p"
proof (induction xs arbitrary: p)
  case Nil
  { case 1 show ?case by simp }
  { case 2 show ?case by simp }
  { case 3 show ?case by simp }
  { case 4 show ?case by simp }
next
  case (Cons x xs)
  { case 1 show ?case using Cons(1)[of "snd (connectTo x p)"] connectTo_frame(1)[of x p]
      by (cases "connectTo x p") (auto simp: andThen_def split: option.split) }
  { case 2 show ?case using Cons(2)[of "snd (connectTo x p)"] connectTo_frame(2)[of x p]
      by (cases "connectTo x p") (auto simp: andThen_def split: option.split) }
  { case 3 show ?case using Cons(3)[of "snd (connectTo x p)"] connectTo_frame(3)[of x p]
      by (cases "connectTo x p") (auto simp: andThen_def split: option.split) }
  { case 4 show ?case using Cons(4)[of "snd (connectTo x p)"] connectTo_frame(4)[of x p]
      by (cases "connectTo x p") (auto simp: andThen_def split: option.split) }
qed

lemma handle_persister_config: "config (snd (handle_persister p)) = config p"
  by (simp add: handle_persister_def assert_def container_lookup_def Let_def
      split: option.split name_or_factory.split sum.split)

lemma delete_as_filter: "AList.delete k al = filter (\<lambda>e. fst e \<noteq> k) al"
  by (induction al) auto

lemma adapters_disconnectFrom:
  "adapters (disconnectFrom (ByName k) p) = filter (\<lambda>e. fst e \<noteq> k) (adapters p)"
proof (cases "map_of (adapters p) k")
  case None
  then have "k \<notin> fst ` set (adapters p)" by (simp add: map_of_eq_None_iff)
  then have "filter (\<lambda>e. fst e \<noteq> k) (adapters p) = adapters p"
    by (auto intro!: filter_True)
  with None show ?thesis by (simp add: disconnectFrom_def name_of_def)
next
  case (Some a)
  then show ?thesis
    by (simp add: disconnectFrom_def name_of_def log_def delete_as_filter)
qed

lemma adapters_fold_disconnectFrom:
  "adapters (fold (\<lambda>k. disconnectFrom (ByName k)) ks p) = filter (\<lambda>e. fst e \<notin> set ks) (adapters p)"
proof (induction ks arbitrary: p)
  case Nil
  show ?case by simp
next
  case (Cons k ks)
  have "(\<lambda>e. fst e \<notin> set ks \<and> fst e \<noteq> k) = (\<lambda>e::string \<times> plugin. fst e \<notin> set (k # ks))"
    by auto
  then show ?case by (simp add: Cons.IH adapters_disconnectFrom)
qed

lemma adapters_disconnect: "adapters (disconnect p) = []"
  by (simp add: disconnect_def adapters_fold_disconnectFrom)

lemma effects_disconnectFrom:
  "\<exists>ds. effects (disconnectFrom x p) = effects p @ map AdapterDisconnect ds"
proof (cases "map_of (adapters p) (name_of x)")
  case None
  then have "effects (disconnectFrom x p) = effects p @ map AdapterDisconnect []"
    by (simp add: disconnectFrom_def)
  then show ?thesis by blast
next
  case (Some a)
  then have "effects (disconnectFrom x p) = effects p @ map AdapterDisconnect [inst_id a]"
    by (simp add: disconnectFrom_def log_def)
  then show ?thesis by blast
qed

lemma effects_fold_disconnectFrom:
  "\<exists>ds. effects (fold (\<lambda>k. disconnectFrom (ByName k)) ks p) = effects p @ map AdapterDisconnect ds"
proof (induction ks arbitrary: p)
  case Nil
  have "effects (fold (\<lambda>k. disconnectFrom (ByName k)) [] p) = effects p @ map AdapterDisconnect []"
    by simp
  then show ?case by blast
next
  case (Cons k ks)
  obtain ds1 where d1: "effects (disconnectFrom (ByName k) p) = effects p @ map AdapterDisconnect ds1"
    using effects_disconnectFrom by blast
  obtain ds2 where d2: "effects (fold (\<lambda>k. disconnectFrom (ByName k)) ks (disconnectFrom (ByName k) p))
      = effects (disconnectFrom (ByName k) p) @ map AdapterDisconnect ds2"
    using Cons.IH by blast
  have "effects (fold (\<lambda>k. disconnectFrom (ByName k)) (k # ks) p) = effects p @ map AdapterDisconnect (ds1 @ ds2)"
    using d1 d2 by simp
  then show ?case by blast
qed

lemma effects_disconnect:
  "\<exists>ds. effects (disconnect p) = effects p @ map AdapterDisconnect ds"
  unfolding disconnect_def by (rule effects_fold_disconnectFrom)

section \<open>Shutdown when persisting fails\<close>

text \<open>
  C1, as the spec states it: when the persister's \<open>persist\<close> fails, \<open>stop\<close> propagates the
  failure and still sets the mode to \<open>STOPPED\<close>. On the running example instance with a
  failing \<open>persist\<close> the failure is propagated, but the mode is not \<open>STOPPED\<close> afterwards:
  the rejected \<open>await\<close> leaves \<open>stop\<close> before the assignment of the mode.
\<close>

theorem stop_persist_failure_counterexample:
  "fst (stop persist_fails running_polly) = Some (Rejection ''disk full'')
   \<and> mode (snd (stop persist_fails running_polly)) \<noteq> MODES_STOPPED"
  by (simp add: example_defs run_defs MODES_defs)

text \<open>
  C1, amended: for an instance that is not stopped and whose persister's \<open>persist\<close> fails
  with \<open>e\<close>, \<open>stop\<close> rejects with \<open>e\<close> after disconnecting every adapter, disconnecting
  the logger and calling \<open>persist\<close>; the mode is left as it was, no adapter stays
  connected and the \<open>stop\<close> event is not broadcast.
\<close>

theorem stop_persist_failure:
  assumes "mode p \<noteq> MODES_STOPPED" and "persister p = Some i" and "persist i = Some e"
  shows "stop persist p = (Some e, log (Persist (inst_id i)) (log LoggerDisconnect (disconnect p)))
         \<and> mode (snd (stop persist p)) = mode p
         \<and> adapters (snd (stop persist p)) = []
         \<and> Emit ''stop'' \<notin> set (drop (length (effects p)) (effects (snd (stop persist p))))"
proof -
  have r: "stop persist p = (Some e, log (Persist (inst_id i)) (log LoggerDisconnect (disconnect p)))"
    using assms by (simp add: stop_def Let_def andThen_def log_def disconnect_frame)
  have m: "mode (log (Persist (inst_id i)) (log LoggerDisconnect (disconnect p))) = mode p"
    by (simp add: mode_log mode_disconnect)
  have a: "adapters (log (Persist (inst_id i)) (log LoggerDisconnect (disconnect p))) = []"
    by (simp add: log_def adapters_disconnect)
  obtain ds where ds: "effects (disconnect p) = effects p @ map AdapterDisconnect ds"
    using effects_disconnect by blast
  have "effects (log (Persist (inst_id i)) (log LoggerDisconnect (disconnect p)))
          = effects p @ (map AdapterDisconnect ds @ [LoggerDisconnect, Persist (inst_id i)])"
    by (simp add: log_def ds)
  then have s: "Emit ''stop'' \<notin> set (drop (length (effects p))
          (effects (log (Persist (inst_id i)) (log LoggerDisconnect (disconnect p)))))"
    by auto
  show ?thesis using r m a s by simp
qed

theorem stop_persist_failure_witness:
  "mode running_polly \<noteq> MODES_STOPPED
   \<and> persister running_polly = Some \<lparr>inst_id = 1, inst_of = fs_persister\<rparr>
   \<and> persist_fails \<lparr>inst_id = 1, inst_of = fs_persister\<rparr> = Some (Rejection ''disk full'')
   \<and> fst (stop persist_fails running_polly) = Some (Rejection ''disk full'')
   \<and> mode (snd (stop persist_fails running_polly)) = MODES_REPLAY
   \<and> effects (snd (stop persist_fails running_polly))
       = [LoggerConnect, AdapterConnect 0, AdapterDisconnect 0, LoggerDisconnect, Persist 1]"
proof -
  have h1: "mode running_polly \<noteq> MODES_STOPPED"
    by (simp add: example_defs mode_def MODES_defs)
  have h2: "persister running_polly = Some \<lparr>inst_id = 1, inst_of = fs_persister\<rparr>"
    by (simp add: example_defs)
  have h3: "persist_fails \<lparr>inst_id = 1, inst_of = fs_persister\<rparr> = Some (Rejection ''disk full'')"
    by (simp add: persist_fails_def)
  have e: "effects (log (Persist 1) (log LoggerDisconnect (disconnect running_polly)))
       = [LoggerConnect, AdapterConnect 0, AdapterDisconnect 0, LoggerDisconnect, Persist 1]"
    by (simp add: example_defs disconnect_def disconnectFrom_def log_def name_of_def Let_def)
  have m: "mode running_polly = MODES_REPLAY"
    by (simp add: example_defs mode_def MODES_defs)
  note t = stop_persist_failure [of running_polly _ persist_fails, OF h1 h2 h3]
  from t have r: "stop persist_fails running_polly
      = (Some (Rejection ''disk full''),
         log (Persist 1) (log LoggerDisconnect (disconnect running_polly)))"
    by simp
  from t have t2: "mode (snd (stop persist_fails running_polly)) = mode running_polly"
    by blast
  have c1: "fst (stop persist_fails running_polly) = Some (Rejection ''disk full'')"
    by (simp add: r)
  have c2: "effects (snd (stop persist_fails running_polly))
       = [LoggerConnect, AdapterConnect 0, AdapterDisconnect 0, LoggerDisconnect, Persist 1]"
    by (simp only: r snd_conv e)
  show ?thesis
    using h1 h2 h3 c1 c2 t2 m by simp
qed

section \<open>The mode setter and the operations built on it\<close>

lemma mode_snd_play: "mode (snd (play p)) = mode p"
  by (simp add: play_def set_mode_raises andThen_def split: option.split)

lemma config_configure_stopped:
  "mode p = MODES_STOPPED \<Longrightarrow> configure mc cfg p
     = (if requests p = [] then (Some (AssertionError not_running_message), p)
        else (Some (AssertionError requests_handled_message), p))"
  by (simp add: configure_def assert_def)

text \<open>
  C2: the setter is to normalise the case of its input, accept every legal mode and
  reject the others with an error that lists the legal modes. The setter of the file
  reads \<open>uppercaseMode\<close>, which it never declares: on \<open>record\<close>, on \<open>RECORD\<close> and on an
  illegal name alike it throws a \<open>ReferenceError\<close>, the mode is not changed and no
  validation message is produced.
\<close>

theorem set_mode_record_raises:
  "set_mode ''record'' running_polly
     = (Some (ReferenceError ''uppercaseMode is not defined''), running_polly)
   \<and> set_mode ''RECORD'' running_polly
     = (Some (ReferenceError ''uppercaseMode is not defined''), running_polly)
   \<and> mode (snd (set_mode ''record'' running_polly)) \<noteq> MODES_RECORD
   \<and> fst (set_mode ''bogus'' running_polly)
     \<noteq> Some (AssertionError (invalid_mode_message ''bogus'' MODES_values))"
  by (simp add: set_mode_def uppercaseMode_def example_defs mode_def MODES_defs)

text \<open>
  C3: once the mode of an instance is \<open>STOPPED\<close>, none of \<open>record\<close>, \<open>replay\<close>, \<open>pause\<close>,
  \<open>play\<close>, \<open>configure\<close> and \<open>stop\<close> leaves the instance with another mode, whether the
  operation returns or throws.
\<close>

theorem stopped_is_terminal:
  assumes "mode p = MODES_STOPPED"
  shows "mode (snd (polly_record p)) = MODES_STOPPED
       \<and> mode (snd (polly_replay p)) = MODES_STOPPED
       \<and> mode (snd (pause p)) = MODES_STOPPED
       \<and> mode (snd (play p)) = MODES_STOPPED
       \<and> mode (snd (configure mergeConfigs cfg p)) = MODES_STOPPED
       \<and> mode (snd (stop persist p)) = MODES_STOPPED"
proof -
  have 1: "mode (snd (polly_record p)) = MODES_STOPPED"
    using assms by (simp add: polly_record_def set_mode_raises)
  have 2: "mode (snd (polly_replay p)) = MODES_STOPPED"
    using assms by (simp add: polly_replay_def set_mode_raises)
  have 3: "mode (snd (pause p)) = MODES_STOPPED"
    using assms by (simp add: pause_def set_mode_raises mode_def)
  have 4: "mode (snd (play p)) = MODES_STOPPED"
    using assms by (simp add: mode_snd_play)
  have 5: "mode (snd (configure mergeConfigs cfg p)) = MODES_STOPPED"
    using assms by (simp add: config_configure_stopped)
  have 6: "mode (snd (stop persist p)) = MODES_STOPPED"
    using assms by (simp add: stop_def)
  show ?thesis using 1 2 3 4 5 6 by simp
qed

theorem stopped_is_terminal_witness:
  "mode stopped_polly = MODES_STOPPED
   \<and> mode (snd (polly_record stopped_polly)) = MODES_STOPPED
   \<and> mode (snd (polly_replay stopped_polly)) = MODES_STOPPED
   \<and> mode (snd (pause stopped_polly)) = MODES_STOPPED
   \<and> mode (snd (play stopped_polly)) = MODES_STOPPED
   \<and> mode (snd (configure merge_layers no_changes stopped_polly)) = MODES_STOPPED
   \<and> mode (snd (stop persist_resolves stopped_polly)) = MODES_STOPPED"
proof -
  have h: "mode stopped_polly = MODES_STOPPED"
    by (simp add: stopped_polly_def mode_def)
  show ?thesis
    using stopped_is_terminal [OF h, of merge_layers no_changes persist_resolves] h by simp
qed

text \<open>
  C7: \<open>stop\<close> is to set the mode to \<open>STOPPED\<close> after a successful \<open>persist\<close>, broadcast the
  \<open>stop\<close> event, and do nothing when called again. On the running example instance with
  a \<open>persist\<close> that resolves, the first call throws the setter's \<open>ReferenceError\<close> at the
  assignment of the mode: the mode stays \<open>REPLAY\<close>, no \<open>stop\<close> event is broadcast, and a
  second call disconnects the logger and persists once more.
\<close>

theorem stop_twice_repeats_shutdown:
  "fst (stop persist_resolves running_polly) = Some (ReferenceError ''uppercaseMode is not defined'')
   \<and> mode (snd (stop persist_resolves running_polly)) = MODES_REPLAY
   \<and> effects (snd (stop persist_resolves running_polly))
       = effects running_polly @ [AdapterDisconnect 0, LoggerDisconnect, Persist 1]
   \<and> effects (snd (stop persist_resolves (snd (stop persist_resolves running_polly))))
       = effects running_polly
           @ [AdapterDisconnect 0, LoggerDisconnect, Persist 1, LoggerDisconnect, Persist 1]"
  by (simp add: example_defs run_defs MODES_defs)

text \<open>
  C8: \<open>pause\<close> is to save the current mode and set \<open>PASSTHROUGH\<close>, \<open>play\<close> to restore the
  saved mode and clear the snapshot. On the running example instance \<open>pause\<close> saves
  \<open>REPLAY\<close> and then throws the setter's \<open>ReferenceError\<close>, leaving the mode at \<open>REPLAY\<close>;
  the following \<open>play\<close> throws as well and leaves the snapshot in place.
\<close>

theorem pause_raises:
  "pause running_polly
     = (Some (ReferenceError ''uppercaseMode is not defined''),
        running_polly\<lparr>PAUSED_MODE := Some MODES_REPLAY\<rparr>)
   \<and> mode (snd (pause running_polly)) = MODES_REPLAY
   \<and> mode (snd (pause running_polly)) \<noteq> MODES_PASSTHROUGH
   \<and> fst (play (snd (pause running_polly))) = Some (ReferenceError ''uppercaseMode is not defined'')
   \<and> PAUSED_MODE (snd (play (snd (pause running_polly)))) = Some MODES_REPLAY"
  by (simp add: pause_def play_def truthy_def andThen_def set_mode_def uppercaseMode_def
      example_defs mode_def MODES_defs)

section \<open>Preconditions of configure\<close>

lemma connectTo_error:
  "fst (connectTo x p) = Some e \<Longrightarrow>
     e = AssertionError (adapter_missing_message (name_of x)) \<or> (\<exists>k. e = LookupError k)"
  by (auto simp: connectTo_def assert_def container_lookup_def Let_def
      split: if_splits option.splits sum.splits)

lemma forEach_connectTo_error:
  "fst (forEach connectTo xs p) = Some e \<Longrightarrow>
     (\<exists>n. e = AssertionError (adapter_missing_message n)) \<or> (\<exists>k. e = LookupError k)"
proof (induction xs arbitrary: p)
  case Nil
  then show ?case by simp
next
  case (Cons x xs)
  show ?case
  proof (cases "fst (connectTo x p)")
    case None
    then have "forEach connectTo (x # xs) p = forEach connectTo xs (snd (connectTo x p))"
      by (cases "connectTo x p") (simp add: andThen_def)
    with Cons show ?thesis by simp
  next
    case (Some e')
    then have "fst (forEach connectTo (x # xs) p) = Some e'"
      by (cases "connectTo x p") (simp add: andThen_def)
    with Cons.prems have "e' = e" by simp
    with Some connectTo_error [of x p e] show ?thesis by blast
  qed
qed

lemma handle_persister_error:
  "fst (handle_persister p) = Some e \<Longrightarrow>
     (\<exists>n. e = AssertionError (persister_missing_message n)) \<or> (\<exists>k. e = LookupError k)"
  by (auto simp: handle_persister_def assert_def container_lookup_def Let_def
      split: if_splits option.splits sum.splits name_or_factory.splits)

lemma messages_differ:
  "adapter_missing_message n \<noteq> requests_handled_message"
  "adapter_missing_message n \<noteq> not_running_message"
  "persister_missing_message n \<noteq> requests_handled_message"
  "persister_missing_message n \<noteq> not_running_message"
  by (simp_all add: adapter_missing_message_def persister_missing_message_def
      requests_handled_message_def not_running_message_def)

lemma configure_running_error:
  assumes "requests p = []" and "mode p \<noteq> MODES_STOPPED"
    and "fst (configure mc cfg p) = Some e"
  shows "(\<exists>n. e = AssertionError (adapter_missing_message n))
       \<or> (\<exists>n. e = AssertionError (persister_missing_message n)) \<or> (\<exists>k. e = LookupError k)"
proof -
  let ?p2 = "(disconnect p)\<lparr>config := mc (config (disconnect p)) cfg\<rparr>"
  let ?r = "forEach connectTo (cfg_adapters (config ?p2)) ?p2"
  have c: "configure mc cfg p = andThen ?r handle_persister"
    using assms(1,2) by (simp add: configure_def assert_def Let_def)
  show ?thesis
  proof (cases "fst ?r")
    case None
    then have "andThen ?r handle_persister = handle_persister (snd ?r)"
      by (cases ?r) (simp add: andThen_def)
    with c assms(3) handle_persister_error [of "snd ?r" e] show ?thesis by auto
  next
    case (Some e')
    then have "fst (andThen ?r handle_persister) = Some e'"
      by (cases ?r) (simp add: andThen_def)
    with c assms(3) have "e' = e" by simp
    with Some forEach_connectTo_error [of _ ?p2 e] show ?thesis by blast
  qed
qed

text \<open>
  C4: \<open>configure\<close> throws the assertion error naming the failed precondition when a
  request has been registered (checked first) or when the mode is \<open>STOPPED\<close>, and then
  leaves the instance as it was; when both preconditions hold, it throws neither of the
  two errors.
\<close>

theorem configure_preconditions:
  "(requests p \<noteq> [] \<longrightarrow>
      configure mergeConfigs cfg p = (Some (AssertionError requests_handled_message), p))
   \<and> (requests p = [] \<and> mode p = MODES_STOPPED \<longrightarrow>
      configure mergeConfigs cfg p = (Some (AssertionError not_running_message), p))
   \<and> (requests p = [] \<and> mode p \<noteq> MODES_STOPPED \<longrightarrow>
      fst (configure mergeConfigs cfg p) \<noteq> Some (AssertionError requests_handled_message)
      \<and> fst (configure mergeConfigs cfg p) \<noteq> Some (AssertionError not_running_message))"
proof (intro conjI impI)
  assume "requests p \<noteq> []"
  then show "configure mergeConfigs cfg p = (Some (AssertionError requests_handled_message), p)"
    by (simp add: configure_def assert_def)
next
  assume "requests p = [] \<and> mode p = MODES_STOPPED"
  then show "configure mergeConfigs cfg p = (Some (AssertionError not_running_message), p)"
    by (simp add: configure_def assert_def)
next
  assume a: "requests p = [] \<and> mode p \<noteq> MODES_STOPPED"
  show "fst (configure mergeConfigs cfg p) \<noteq> Some (AssertionError requests_handled_message)"
    using configure_running_error [of p mergeConfigs cfg "AssertionError requests_handled_message"] a
    by (auto simp: messages_differ [symmetric])
  show "fst (configure mergeConfigs cfg p) \<noteq> Some (AssertionError not_running_message)"
    using configure_running_error [of p mergeConfigs cfg "AssertionError not_running_message"] a
    by (auto simp: messages_differ [symmetric])
qed

theorem configure_preconditions_witness:
  "requests request_seen \<noteq> []
   \<and> configure merge_layers no_changes request_seen
       = (Some (AssertionError requests_handled_message), request_seen)
   \<and> requests stopped_polly = [] \<and> mode stopped_polly = MODES_STOPPED
   \<and> configure merge_layers no_changes stopped_polly
       = (Some (AssertionError not_running_message), stopped_polly)
   \<and> requests running_polly = [] \<and> mode running_polly \<noteq> MODES_STOPPED
   \<and> fst (configure merge_layers no_changes running_polly)
       \<noteq> Some (AssertionError requests_handled_message)
   \<and> fst (configure merge_layers no_changes running_polly)
       \<noteq> Some (AssertionError not_running_message)"
proof -
  have h1: "requests request_seen \<noteq> []"
    by (simp add: request_seen_def registerRequest_def Let_def)
  have h2: "requests stopped_polly = [] \<and> mode stopped_polly = MODES_STOPPED"
    by (simp add: stopped_polly_def mode_def running_polly_def)
  have h3: "requests running_polly = [] \<and> mode running_polly \<noteq> MODES_STOPPED"
    by (simp add: mode_def running_polly_def MODES_defs)
  show ?thesis
    using configure_preconditions [of request_seen merge_layers no_changes]
      configure_preconditions [of stopped_polly merge_layers no_changes]
      configure_preconditions [of running_polly merge_layers no_changes]
      h1 h2 h3
    by simp
qed

section \<open>The persister slot under configure\<close>

lemma reconfigured_fields:
  "persister reconfigured = Some \<lparr>inst_id = 3, inst_of = fs_persister\<rparr>"
  "config reconfigured = config running_polly"
  by (simp_all add: reconfigured_def configure_def assert_def mode_def disconnect_def
      disconnectFrom_def name_of_def log_def Let_def merge_layers_def no_changes_def andThen_def
      connectTo_def container_has_def container_lookup_def handle_persister_def configured_def
      running_polly_def MODES_defs)

lemma handle_persister_unconfigured:
  "\<not> configured (cfg_persister (config p)) \<Longrightarrow> handle_persister p = (None, p)"
  by (cases "cfg_persister (config p)") (auto simp: handle_persister_def)

text \<open>
  C10: when the merged configuration has no persister entry (none, or a falsy one),
  \<open>configure\<close> leaves the \<open>persister\<close> field as it was, whether it returns or throws; a
  persister instance created by an earlier \<open>configure\<close> is still the one in the slot.
\<close>

theorem configure_keeps_persister:
  assumes "\<not> configured (cfg_persister (mergeConfigs (config p) cfg))"
  shows "persister (snd (configure mergeConfigs cfg p)) = persister p"
proof (cases "requests p = [] \<and> mode p \<noteq> MODES_STOPPED")
  case False
  then show ?thesis by (auto simp: configure_def assert_def)
next
  case True
  let ?p2 = "(disconnect p)\<lparr>config := mergeConfigs (config (disconnect p)) cfg\<rparr>"
  let ?r = "forEach connectTo (cfg_adapters (config ?p2)) ?p2"
  have c: "configure mergeConfigs cfg p = andThen ?r handle_persister"
    using True by (simp add: configure_def assert_def Let_def)
  have cfg: "config (snd ?r) = mergeConfigs (config p) cfg"
    by (simp add: forEach_connectTo_frame disconnect_frame)
  have pers: "persister (snd ?r) = persister p"
    by (simp add: forEach_connectTo_frame disconnect_frame)
  have "handle_persister (snd ?r) = (None, snd ?r)"
    using assms cfg by (simp add: handle_persister_unconfigured)
  then have "snd (andThen ?r handle_persister) = snd ?r"
    by (cases ?r) (auto simp: andThen_def split: option.split)
  with c pers show ?thesis by simp
qed

theorem configure_keeps_persister_witness:
  "persister reconfigured = Some \<lparr>inst_id = 3, inst_of = fs_persister\<rparr>
   \<and> \<not> configured (cfg_persister (merge_layers (config reconfigured) without_persister))
   \<and> persister (snd (configure merge_layers without_persister reconfigured))
       = Some \<lparr>inst_id = 3, inst_of = fs_persister\<rparr>"
proof -
  have h: "\<not> configured (cfg_persister (merge_layers (config reconfigured) without_persister))"
    by (simp add: merge_layers_def without_persister_def configured_def)
  show ?thesis
    using configure_keeps_persister [of merge_layers reconfigured without_persister, OF h] h reconfigured_fields(1) by simp
qed

section \<open>Connecting twice to the same adapter\<close>

lemma update_absent: "k \<notin> fst ` set al \<Longrightarrow> AList.update k v al = al @ [(k, v)]"
  by (induction al) auto

lemma connectTo_registered:
  assumes "container p (''adapter:'' @ X) = Some F"
  shows "connectTo (ByName X) p =
     (None, (log (AdapterConnect (fresh p)) ((disconnectFrom (ByName X) p)\<lparr>fresh := Suc (fresh p)\<rparr>))
        \<lparr>adapters := filter (\<lambda>e. fst e \<noteq> X) (adapters p) @ [(X, \<lparr>inst_id = fresh p, inst_of = F\<rparr>)]\<rparr>)"
proof -
  have "X \<notin> fst ` set (filter (\<lambda>e. fst e \<noteq> X) (adapters p))" by auto
  then have u: "AList.update X \<lparr>inst_id = fresh p, inst_of = F\<rparr> (filter (\<lambda>e. fst e \<noteq> X) (adapters p))
      = filter (\<lambda>e. fst e \<noteq> X) (adapters p) @ [(X, \<lparr>inst_id = fresh p, inst_of = F\<rparr>)]"
    by (rule update_absent)
  show ?thesis
    using assms
    by (simp add: connectTo_def assert_def container_has_def container_lookup_def name_of_def
        Let_def disconnectFrom_frame log_def adapters_disconnectFrom u)
qed

lemma effects_disconnectFrom_name:
  "effects (disconnectFrom (ByName X) p) =
     effects p @ (case map_of (adapters p) X of None \<Rightarrow> [] | Some a \<Rightarrow> [AdapterDisconnect (inst_id a)])"
  by (simp add: disconnectFrom_def name_of_def log_def split: option.split)

lemma connectTo_registered_fields:
  assumes "container p (''adapter:'' @ X) = Some F"
  shows "fst (connectTo (ByName X) p) = None"
    and "adapters (snd (connectTo (ByName X) p))
           = filter (\<lambda>e. fst e \<noteq> X) (adapters p) @ [(X, \<lparr>inst_id = fresh p, inst_of = F\<rparr>)]"
    and "effects (snd (connectTo (ByName X) p))
           = effects p
             @ (case map_of (adapters p) X of None \<Rightarrow> [] | Some a \<Rightarrow> [AdapterDisconnect (inst_id a)])
             @ [AdapterConnect (fresh p)]"
    and "fresh (snd (connectTo (ByName X) p)) = Suc (fresh p)"
    and "container (snd (connectTo (ByName X) p)) = container p"
  by (simp_all add: connectTo_registered [OF assms] log_def effects_disconnectFrom_name
      disconnectFrom_frame)

lemma map_of_filtered_snoc:
  "map_of (filter (\<lambda>e. fst e \<noteq> X) al @ [(X, a)]) X = Some a"
  by (induction al) auto

lemma connected_single:
  assumes "pre = [] \<and> A = {} \<or> (\<exists>a. pre = [AdapterDisconnect a] \<and> A = {a})"
  shows "\<forall>t \<in> set (prefixes (pre @ [AdapterConnect i, AdapterDisconnect i, AdapterConnect j])).
      card (connected A t) \<le> 1"
  using assms by (auto simp: card_insert_if)

text \<open>
  C5: for an adapter name \<open>X\<close> registered in the container, two calls of \<open>connectTo(X)\<close>
  both return; afterwards exactly one entry is stored under \<open>X\<close>, holding the second
  instance, whose identity differs from the first's. The hooks called are, in order: the
  disconnect of the instance previously stored under \<open>X\<close> (if any), the connect of the
  first instance, the disconnect of the first instance (once), the connect of the
  second. After every prefix of these calls at most one instance is connected.
\<close>

theorem connectTo_twice:
  assumes "container p (''adapter:'' @ X) = Some F"
  shows "fst (connectTo (ByName X) p) = None
       \<and> fst (connectTo (ByName X) (snd (connectTo (ByName X) p))) = None
       \<and> map_of (adapters (snd (connectTo (ByName X) p))) X
           = Some \<lparr>inst_id = fresh p, inst_of = F\<rparr>
       \<and> filter (\<lambda>e. fst e = X) (adapters (snd (connectTo (ByName X) (snd (connectTo (ByName X) p)))))
           = [(X, \<lparr>inst_id = Suc (fresh p), inst_of = F\<rparr>)]
       \<and> map_of (adapters (snd (connectTo (ByName X) (snd (connectTo (ByName X) p))))) X
           = Some \<lparr>inst_id = Suc (fresh p), inst_of = F\<rparr>
       \<and> map_of (adapters (snd (connectTo (ByName X) (snd (connectTo (ByName X) p))))) X
           \<noteq> map_of (adapters (snd (connectTo (ByName X) p))) X
       \<and> effects (snd (connectTo (ByName X) (snd (connectTo (ByName X) p))))
           = effects (snd (connectTo (ByName X) p))
             @ [AdapterDisconnect (fresh p), AdapterConnect (Suc (fresh p))]
       \<and> effects (snd (connectTo (ByName X) (snd (connectTo (ByName X) p))))
           = effects p
             @ (case map_of (adapters p) X of None \<Rightarrow> [] | Some a \<Rightarrow> [AdapterDisconnect (inst_id a)])
             @ [AdapterConnect (fresh p), AdapterDisconnect (fresh p), AdapterConnect (Suc (fresh p))]
       \<and> (\<forall>t \<in> set (prefixes (drop (length (effects p))
                (effects (snd (connectTo (ByName X) (snd (connectTo (ByName X) p))))))).
             card (connected (inst_id ` set_option (map_of (adapters p) X)) t) \<le> 1)"
proof -
  let ?p1 = "snd (connectTo (ByName X) p)"
  let ?p2 = "snd (connectTo (ByName X) ?p1)"
  let ?pre = "case map_of (adapters p) X of None \<Rightarrow> [] | Some a \<Rightarrow> [AdapterDisconnect (inst_id a)]"
  note first = connectTo_registered_fields [OF assms]
  have reg1: "container ?p1 (''adapter:'' @ X) = Some F"
    using assms by (simp add: first(5))
  note second = connectTo_registered_fields [OF reg1]
  have m1: "map_of (adapters ?p1) X = Some \<lparr>inst_id = fresh p, inst_of = F\<rparr>"
    by (simp only: first(2) map_of_filtered_snoc)
  have a2: "adapters ?p2
      = filter (\<lambda>e. fst e \<noteq> X) (adapters p) @ [(X, \<lparr>inst_id = Suc (fresh p), inst_of = F\<rparr>)]"
    by (simp add: second(2) first(2) first(4))
  have f2: "filter (\<lambda>e. fst e = X) (adapters ?p2) = [(X, \<lparr>inst_id = Suc (fresh p), inst_of = F\<rparr>)]"
    by (simp add: a2)
  have m2: "map_of (adapters ?p2) X = Some \<lparr>inst_id = Suc (fresh p), inst_of = F\<rparr>"
    by (simp only: a2 map_of_filtered_snoc)
  have ne: "map_of (adapters ?p2) X \<noteq> map_of (adapters ?p1) X"
    by (simp add: m1 m2)
  have e12: "effects ?p2 = effects ?p1 @ [AdapterDisconnect (fresh p), AdapterConnect (Suc (fresh p))]"
    by (simp add: second(3) m1 first(4))
  have e2: "effects ?p2 = effects p @ ?pre
      @ [AdapterConnect (fresh p), AdapterDisconnect (fresh p), AdapterConnect (Suc (fresh p))]"
    by (simp add: second(3) m1 first(3) first(4))
  have seg: "drop (length (effects p)) (effects ?p2) = ?pre
      @ [AdapterConnect (fresh p), AdapterDisconnect (fresh p), AdapterConnect (Suc (fresh p))]"
    by (simp add: e2)
  have shape: "?pre = [] \<and> inst_id ` set_option (map_of (adapters p) X) = {}
      \<or> (\<exists>a. ?pre = [AdapterDisconnect a] \<and> inst_id ` set_option (map_of (adapters p) X) = {a})"
    by (cases "map_of (adapters p) X") auto
  have live: "\<forall>t \<in> set (prefixes (drop (length (effects p)) (effects ?p2))).
      card (connected (inst_id ` set_option (map_of (adapters p) X)) t) \<le> 1"
    unfolding seg by (rule connected_single [OF shape])
  show ?thesis
    using first(1) second(1) m1 f2 m2 ne e12 e2 live by blast
qed

theorem connectTo_twice_witness:
  "container running_polly (''adapter:'' @ ''fetch'') = Some fetch_adapter
   \<and> map_of (adapters running_polly) ''fetch'' = Some \<lparr>inst_id = 0, inst_of = fetch_adapter\<rparr>
   \<and> adapters (snd (connectTo (ByName ''fetch'') (snd (connectTo (ByName ''fetch'') running_polly))))
       = [(''fetch'', \<lparr>inst_id = 3, inst_of = fetch_adapter\<rparr>)]
   \<and> effects (snd (connectTo (ByName ''fetch'') (snd (connectTo (ByName ''fetch'') running_polly))))
       = [LoggerConnect, AdapterConnect 0,
          AdapterDisconnect 0, AdapterConnect 2, AdapterDisconnect 2, AdapterConnect 3]"
proof -
  have h: "container running_polly (''adapter:'' @ ''fetch'') = Some fetch_adapter"
    by (simp add: running_polly_def)
  have m: "map_of (adapters running_polly) ''fetch'' = Some \<lparr>inst_id = 0, inst_of = fetch_adapter\<rparr>"
    and f: "fresh running_polly = 2"
    and e: "effects running_polly = [LoggerConnect, AdapterConnect 0]"
    by (simp_all add: running_polly_def)
  note t = connectTo_twice [OF h]
  from t have "effects (snd (connectTo (ByName ''fetch'') (snd (connectTo (ByName ''fetch'') running_polly))))
       = effects running_polly
             @ (case map_of (adapters running_polly) ''fetch'' of None \<Rightarrow> []
                | Some a \<Rightarrow> [AdapterDisconnect (inst_id a)])
             @ [AdapterConnect (fresh running_polly), AdapterDisconnect (fresh running_polly),
                AdapterConnect (Suc (fresh running_polly))]"
    by blast
  then have c2: "effects (snd (connectTo (ByName ''fetch'') (snd (connectTo (ByName ''fetch'') running_polly))))
       = [LoggerConnect, AdapterConnect 0,
          AdapterDisconnect 0, AdapterConnect 2, AdapterDisconnect 2, AdapterConnect 3]"
    by (simp add: m f e)
  have c1: "adapters (snd (connectTo (ByName ''fetch'') (snd (connectTo (ByName ''fetch'') running_polly))))
       = [(''fetch'', \<lparr>inst_id = 3, inst_of = fetch_adapter\<rparr>)]"
    by (simp add: running_polly_def connectTo_def assert_def container_has_def container_lookup_def
        name_of_def Let_def disconnectFrom_def log_def)
  show ?thesis using h m c1 c2 by blast
qed

section \<open>Flush\<close>

lemma then_NOOP_settled:
  "then_NOOP x \<noteq> Rejected" "Rejected \<noteq> then_NOOP x"
  "(then_NOOP x = Pending) = (x = Pending)" "(Pending = then_NOOP x) = (x = Pending)"
  by (cases x; simp add: then_NOOP_def)+

lemma flush_state_not_rejected: "flush_state h awaited \<noteq> Rejected"
  by (auto simp: flush_state_def Promise_all_def then_NOOP_settled)

lemma flush_state_fulfilled:
  "(flush_state h awaited = Fulfilled) = (\<forall>r \<in> set awaited. h r \<noteq> Pending)"
  by (auto simp: flush_state_def Promise_all_def then_NOOP_settled image_iff)

lemma flush_state_cong:
  "(\<And>r. r \<in> set awaited \<Longrightarrow> h r = h' r) \<Longrightarrow> flush_state h awaited = flush_state h' awaited"
  by (simp add: flush_state_def cong: map_cong)

lemma registerRequest_fresh:
  assumes "\<forall>r \<in> set (requests p). promise r < fresh p"
  shows "\<forall>r \<in> set (requests (snd (registerRequest d p))).
           promise r < fresh (snd (registerRequest d p))"
  using assms by (auto simp: registerRequest_def Let_def less_Suc_eq)

text \<open>
  C6: the promise returned by \<open>flush\<close> is never rejected, whatever the states of the
  requests' promises; it is fulfilled exactly when every request registered before the
  call has settled, by success or by failure; and the state of the promise of a request
  registered afterwards (on the instance in any later state \<open>p'\<close>) has no influence on
  it. Promise identities are allocated from \<open>fresh\<close>, so those of the tracked requests lie
  below it.
\<close>

theorem flush_settles:
  assumes "\<forall>r \<in> set (requests p). promise r < fresh p" and "fresh p \<le> fresh p'"
  shows "flush_state h (flush p) \<noteq> Rejected
       \<and> (flush_state h (flush p) = Fulfilled
            \<longleftrightarrow> (\<forall>r \<in> set (requests p). h (promise r) \<noteq> Pending))
       \<and> flush_state (h(promise (fst (registerRequest d p')) := s)) (flush p)
            = flush_state h (flush p)"
proof -
  have 1: "flush_state h (flush p) \<noteq> Rejected"
    by (rule flush_state_not_rejected)
  have 2: "flush_state h (flush p) = Fulfilled
            \<longleftrightarrow> (\<forall>r \<in> set (requests p). h (promise r) \<noteq> Pending)"
    by (simp add: flush_state_fulfilled flush_def)
  have "promise (fst (registerRequest d p')) = fresh p'"
    by (simp add: registerRequest_def Let_def)
  moreover have "\<And>r. r \<in> set (flush p) \<Longrightarrow> r < fresh p"
    using assms(1) by (auto simp: flush_def)
  ultimately have "\<And>r. r \<in> set (flush p) \<Longrightarrow>
      (h(promise (fst (registerRequest d p')) := s)) r = h r"
    using assms(2) by fastforce
  then have 3: "flush_state (h(promise (fst (registerRequest d p')) := s)) (flush p)
            = flush_state h (flush p)"
    by (rule flush_state_cong)
  show ?thesis using 1 2 3 by blast
qed

theorem flush_settles_witness:
  "requests two_requests
       = [\<lparr>req_data = ''GET /a'', promise = 2\<rparr>, \<lparr>req_data = ''GET /b'', promise = 3\<rparr>]
   \<and> fresh two_requests = 4
   \<and> flush two_requests = [2, 3]
   \<and> one_failed 2 = Rejected
   \<and> one_failed 3 = Fulfilled
   \<and> flush_state one_failed (flush two_requests) = Fulfilled
   \<and> promise (fst (registerRequest ''GET /c'' two_requests)) = 4
   \<and> one_failed 4 = Pending
   \<and> flush_state (one_failed(promise (fst (registerRequest ''GET /c'' two_requests)) := Pending))
        (flush two_requests) = Fulfilled"
proof -
  have r: "requests two_requests
      = [\<lparr>req_data = ''GET /a'', promise = 2\<rparr>, \<lparr>req_data = ''GET /b'', promise = 3\<rparr>]"
    and f: "fresh two_requests = 4"
    by (simp_all add: two_requests_def registerRequest_def Let_def running_polly_def)
  have h1: "\<forall>r \<in> set (requests two_requests). promise r < fresh two_requests"
    by (simp add: r f)
  have h2: "fresh two_requests \<le> fresh two_requests" by simp
  note t = flush_settles [OF h1 h2, of one_failed "''GET /c''" Pending]
  have a: "flush two_requests = [2, 3]" by (simp add: flush_def r)
  have settled: "\<forall>r \<in> set (requests two_requests). one_failed (promise r) \<noteq> Pending"
    by (simp add: r one_failed_def)
  from t settled have b: "flush_state one_failed (flush two_requests) = Fulfilled" by blast
  have c: "promise (fst (registerRequest ''GET /c'' two_requests)) = 4"
    by (simp add: registerRequest_def Let_def f)
  have d: "one_failed 4 = Pending" by (simp add: one_failed_def)
  from t b have e: "flush_state (one_failed(promise (fst (registerRequest ''GET /c'' two_requests)) := Pending))
        (flush two_requests) = Fulfilled" by simp
  have g: "one_failed 2 = Rejected" "one_failed 3 = Fulfilled"
    by (simp_all add: one_failed_def)
  show ?thesis using r f a g b c d e by blast
qed

section \<open>Static registration\<close>

lemma static_register_eq:
  "static_register F st =
     st\<lparr>FACTORY_REGISTRATION := (FACTORY_REGISTRATION st)(F \<mapsto> memoized F st),
        closures := (if FACTORY_REGISTRATION st F = None then Suc (closures st) else closures st),
        EVENT_EMITTER := (EVENT_EMITTER st)
           (''register'' := EVENT_EMITTER st ''register'' @ [memoized F st])\<rparr>"
proof (cases "FACTORY_REGISTRATION st F")
  case None
  then show ?thesis
    by (simp add: static_register_def memoized_def static_on_def emitter_on_def Let_def)
next
  case (Some cb)
  then have "(FACTORY_REGISTRATION st)(F \<mapsto> cb) = FACTORY_REGISTRATION st"
    by (simp add: fun_upd_idem)
  with Some show ?thesis
    by (simp add: static_register_def memoized_def static_on_def emitter_on_def Let_def)
qed

lemma memoized_registered: "memoized F (static_register F st) = memoized F st"
  by (simp add: static_register_eq memoized_def)

text \<open>
  C9: \<open>register(F)\<close> leaves exactly one callback memoized for \<open>F\<close> (the one already
  there, if any) and changes no other factory's entry; a second \<open>register(F)\<close> keeps the
  table as it is. Each call appends one more subscription of that callback to the
  \<open>register\<close> event, so two calls leave two. \<open>unregister(F)\<close> changes nothing when no
  callback is memoized for \<open>F\<close>; otherwise it calls \<open>off\<close> with the memoized callback,
  after which the callback is not subscribed.
\<close>

theorem static_register_subscriptions:
  "FACTORY_REGISTRATION (static_register F st) F = Some (memoized F st)
   \<and> (\<forall>cb. FACTORY_REGISTRATION st F = Some cb \<longrightarrow> memoized F st = cb)
   \<and> (\<forall>G. G \<noteq> F \<longrightarrow> FACTORY_REGISTRATION (static_register F st) G = FACTORY_REGISTRATION st G)
   \<and> FACTORY_REGISTRATION (static_register F (static_register F st))
       = FACTORY_REGISTRATION (static_register F st)
   \<and> EVENT_EMITTER (static_register F st) ''register''
       = EVENT_EMITTER st ''register'' @ [memoized F st]
   \<and> EVENT_EMITTER (static_register F (static_register F st)) ''register''
       = EVENT_EMITTER st ''register'' @ [memoized F st, memoized F st]
   \<and> (FACTORY_REGISTRATION st F = None \<longrightarrow> static_unregister F st = st)
   \<and> (\<forall>cb. FACTORY_REGISTRATION st F = Some cb \<longrightarrow>
         static_unregister F st = static_off ''register'' cb st
         \<and> cb \<notin> set (EVENT_EMITTER (static_unregister F st) ''register''))"
proof -
  have 1: "FACTORY_REGISTRATION (static_register F st) F = Some (memoized F st)"
    by (simp add: static_register_eq)
  have 2: "\<forall>cb. FACTORY_REGISTRATION st F = Some cb \<longrightarrow> memoized F st = cb"
    by (simp add: memoized_def)
  have 3: "\<forall>G. G \<noteq> F \<longrightarrow> FACTORY_REGISTRATION (static_register F st) G = FACTORY_REGISTRATION st G"
    by (simp add: static_register_eq)
  have 4: "FACTORY_REGISTRATION (static_register F (static_register F st))
       = FACTORY_REGISTRATION (static_register F st)"
    by (simp add: static_register_eq [of F "static_register F st"] memoized_registered 1 fun_upd_idem)
  have 5: "EVENT_EMITTER (static_register F st) ''register''
       = EVENT_EMITTER st ''register'' @ [memoized F st]"
    by (simp add: static_register_eq)
  have 6: "EVENT_EMITTER (static_register F (static_register F st)) ''register''
       = EVENT_EMITTER st ''register'' @ [memoized F st, memoized F st]"
    by (simp add: static_register_eq [of F "static_register F st"] memoized_registered 5)
  have 7: "FACTORY_REGISTRATION st F = None \<longrightarrow> static_unregister F st = st"
    by (simp add: static_unregister_def)
  have 8: "\<forall>cb. FACTORY_REGISTRATION st F = Some cb \<longrightarrow>
         static_unregister F st = static_off ''register'' cb st
         \<and> cb \<notin> set (EVENT_EMITTER (static_unregister F st) ''register'')"
    by (simp add: static_unregister_def static_off_def emitter_off_def)
  show ?thesis using 1 2 3 4 5 6 7 8 by blast
qed

theorem static_register_subscriptions_witness:
  "FACTORY_REGISTRATION no_registrations fetch_adapter = None
   \<and> static_unregister fetch_adapter no_registrations = no_registrations
   \<and> FACTORY_REGISTRATION fetch_registered_twice fetch_adapter = Some (InstallFactory 0 fetch_adapter)
   \<and> EVENT_EMITTER fetch_registered_twice ''register''
       = [InstallFactory 0 fetch_adapter, InstallFactory 0 fetch_adapter]
   \<and> fs_persister \<noteq> fetch_adapter
   \<and> FACTORY_REGISTRATION fetch_registered_twice fs_persister = None
   \<and> EVENT_EMITTER (static_unregister fetch_adapter fetch_registered_twice) ''register'' = []"
proof -
  note t = static_register_subscriptions [of fetch_adapter no_registrations]
  note u = static_register_subscriptions [of fetch_adapter fetch_registered_twice]
  have h: "FACTORY_REGISTRATION no_registrations fetch_adapter = None"
    by (simp add: no_registrations_def)
  have m: "memoized fetch_adapter no_registrations = InstallFactory 0 fetch_adapter"
    by (simp add: memoized_def no_registrations_def)
  have e: "EVENT_EMITTER no_registrations ''register'' = []"
    by (simp add: no_registrations_def)
  from t h have a: "static_unregister fetch_adapter no_registrations = no_registrations"
    by blast
  from t have "FACTORY_REGISTRATION fetch_registered_twice fetch_adapter
      = Some (memoized fetch_adapter no_registrations)"
    unfolding fetch_registered_twice_def by metis
  then have b: "FACTORY_REGISTRATION fetch_registered_twice fetch_adapter
      = Some (InstallFactory 0 fetch_adapter)"
    by (simp add: m)
  from t have "EVENT_EMITTER fetch_registered_twice ''register''
      = EVENT_EMITTER no_registrations ''register''
          @ [memoized fetch_adapter no_registrations, memoized fetch_adapter no_registrations]"
    unfolding fetch_registered_twice_def by blast
  then have c: "EVENT_EMITTER fetch_registered_twice ''register''
       = [InstallFactory 0 fetch_adapter, InstallFactory 0 fetch_adapter]"
    by (simp add: m e)
  have d: "fs_persister \<noteq> fetch_adapter"
    by (simp add: fs_persister_def fetch_adapter_def)
  from t d h have f: "FACTORY_REGISTRATION fetch_registered_twice fs_persister = None"
    unfolding fetch_registered_twice_def
    by (simp add: no_registrations_def)
  from u b have "static_unregister fetch_adapter fetch_registered_twice
      = static_off ''register'' (InstallFactory 0 fetch_adapter) fetch_registered_twice"
    by blast
  then have g: "EVENT_EMITTER (static_unregister fetch_adapter fetch_registered_twice) ''register'' = []"
    by (simp add: static_off_def emitter_off_def c)
  show ?thesis using h a b c d f g by blast
qed

end
